theory Spec2Isabelle
  imports Complex_Main
begin

section \<open>Strings\<close>

text \<open>
  A Python \<open>str\<close> is a sequence of Unicode code points, so it is modelled as a list of
  naturals. \<open>lit\<close> turns an ASCII literal of the source into such a list.
\<close>

type_synonym pystr = "nat list"

definition lit :: "string \<Rightarrow> pystr" where
  "lit s = map of_char s"

text \<open>\<open>str(n)\<close> for a non-negative integer: its decimal digits.\<close>

fun str_nat :: "nat \<Rightarrow> pystr" where
  "str_nat n = (if n < 10 then [48 + n] else str_nat (n div 10) @ [48 + n mod 10])"

declare str_nat.simps [simp del]

text \<open>
  \<open>str.isspace\<close> for one code point: the white space characters of CPython
  (U+0009..U+000D, U+001C..U+0020, U+0085, U+00A0, U+1680, U+2000..U+200A, U+2028, U+2029,
  U+202F, U+205F, U+3000).
\<close>

definition py_isspace :: "nat \<Rightarrow> bool" where
  "py_isspace c \<longleftrightarrow>
     (9 \<le> c \<and> c \<le> 13) \<or> (28 \<le> c \<and> c \<le> 32) \<or> c = 133 \<or> c = 160 \<or> c = 5760 \<or>
     (8192 \<le> c \<and> c \<le> 8202) \<or> c = 8232 \<or> c = 8233 \<or> c = 8239 \<or> c = 8287 \<or> c = 12288"

text \<open>\<open>s.strip()\<close>: white space removed at both ends.\<close>

definition strip :: "pystr \<Rightarrow> pystr" where
  "strip s = rev (dropWhile py_isspace (rev (dropWhile py_isspace s)))"

text \<open>\<open>s.startswith(p)\<close>.\<close>

definition startswith :: "pystr \<Rightarrow> pystr \<Rightarrow> bool" where
  "startswith s p \<longleftrightarrow> take (length p) s = p"

text \<open>\<open>p in s\<close> for two strings: \<open>p\<close> occurs in \<open>s\<close> as a contiguous run.\<close>

fun py_in :: "pystr \<Rightarrow> pystr \<Rightarrow> bool" where
  "py_in p [] \<longleftrightarrow> p = []"
| "py_in p (c # cs) \<longleftrightarrow> startswith (c # cs) p \<or> py_in p cs"

text \<open>\<open>s.split(sep)\<close> for a separator of one code point; the result is never empty.\<close>

fun split_on :: "nat \<Rightarrow> pystr \<Rightarrow> pystr list" where
  "split_on sep [] = [[]]"
| "split_on sep (c # cs) =
     (if c = sep then [] # split_on sep cs
      else (case split_on sep cs of
              [] \<Rightarrow> [[c]]
            | w # ws \<Rightarrow> (c # w) # ws))"

text \<open>The bullet glyph U+2022.\<close>

definition bullet_glyph :: pystr where
  "bullet_glyph = [8226]"

section \<open>The presentation as the program reads it\<close>

text \<open>
  The objects come from the presentation library; the model keeps of each object the
  attributes the program reads.

  \<open>font.color\<close> is either falsy or an object. Reading the attribute \<open>rgb\<close> of that
  object has three outcomes, which \<open>hasattr\<close> tells apart: the read raises
  AttributeError (\<open>hasattr\<close> answers False), the read raises another exception
  (\<open>hasattr\<close> lets it through), or the read returns a value: None, or a sequence of
  integer components.
\<close>

datatype rgb_attr = RgbMissing | RgbRaises | RgbValue "int list option"

datatype font_color = ColorFalsy | ColorObj rgb_attr

datatype underline = UBool bool | UStyle nat

record font =
  font_bold :: "bool option"
  font_italic :: "bool option"
  font_underline :: "underline option"
  font_size :: "int option"  \<comment> \<open>a length in EMU, or None\<close>
  font_name :: "pystr option"
  font_color :: font_color

record run =
  run_text :: pystr
  run_font :: font

record pptx_paragraph =
  para_level :: int
  para_text :: pystr
  para_runs :: "run list"

text \<open>
  An embedded image: its extension, its bytes, and the pixel width that reopening the
  written file reports (None when opening or measuring raises).
\<close>

record embedded_image =
  image_ext :: pystr
  image_blob :: "nat list"
  image_px_width :: "nat option"

text \<open>A table: \<open>len(table.columns)\<close> and, for each row, the text of each of its cells.\<close>

record pptx_table =
  table_columns :: nat
  table_rows :: "pystr list list"

text \<open>
  A shape. \<open>visible\<close>, \<open>shapes\<close> and \<open>image\<close> are read behind \<open>hasattr\<close>, so each
  is optional (None: the attribute is absent). \<open>has_text_frame\<close> and \<open>has_table\<close> say
  whether \<open>text_frame\<close> and \<open>table\<close> are there.
\<close>

record shape_attrs =
  visible :: "bool option"
  shape_type :: int
  text_frame :: "pptx_paragraph list option"
  image :: "embedded_image option"
  table :: "pptx_table option"
  name :: pystr

datatype shape = Shape (attrs: shape_attrs) (shapes: "shape list option")

definition has_text_frame :: "shape_attrs \<Rightarrow> bool" where
  "has_text_frame a \<longleftrightarrow> text_frame a \<noteq> None"

definition has_table :: "shape_attrs \<Rightarrow> bool" where
  "has_table a \<longleftrightarrow> table a \<noteq> None"

section \<open>The output document and the files written\<close>

text \<open>A run of the output document, with the attributes the program sets.\<close>

record drun =
  drun_text :: pystr
  drun_bold :: "bool option"
  drun_italic :: "bool option"
  drun_underline :: "underline option"
  drun_size :: "rat option"  \<comment> \<open>the argument of \<open>Pt\<close>\<close>
  drun_name :: "pystr option"
  drun_color :: "(int \<times> int \<times> int) option"

text \<open>
  The blocks of the output document, in the order of the calls that append them. A
  picture keeps its path and its width in inches; a table keeps its row and column
  counts, its style and the cell assignments in the order they are made.
\<close>

datatype block =
    Heading pystr nat
  | Paragraph "pystr option" "drun list"
  | Picture pystr rat
  | Table nat nat pystr "((nat \<times> nat) \<times> pystr) list"
  | PageBreak

datatype pixmap_data = Pixmap (pix_n: nat) (pix_alpha: bool)

datatype file_content = Blob "nat list" | SavedAsIs pixmap_data | SavedAsRGB pixmap_data

record conv_state =
  doc :: "block list"
  files :: "(pystr \<times> file_content) list"

definition Document :: conv_state where
  "Document = \<lparr>doc = [], files = []\<rparr>"

definition append_block :: "conv_state \<Rightarrow> block \<Rightarrow> conv_state" where
  "append_block st b = st\<lparr>doc := doc st @ [b]\<rparr>"

definition write_file :: "conv_state \<Rightarrow> pystr \<Rightarrow> file_content \<Rightarrow> conv_state" where
  "write_file st path c = st\<lparr>files := files st @ [(path, c)]\<rparr>"

definition plain_run :: "pystr \<Rightarrow> drun" where
  "plain_run t = \<lparr>drun_text = t, drun_bold = None, drun_italic = None, drun_underline = None,
     drun_size = None, drun_name = None, drun_color = None\<rparr>"

text \<open>\<open>doc.add_paragraph(text)\<close>: a paragraph of the default style, with one run when the text is not empty.\<close>

definition add_paragraph :: "conv_state \<Rightarrow> pystr \<Rightarrow> conv_state" where
  "add_paragraph st t = append_block st (Paragraph None (if t = [] then [] else [plain_run t]))"

definition add_heading :: "conv_state \<Rightarrow> pystr \<Rightarrow> nat \<Rightarrow> conv_state" where
  "add_heading st t lvl = append_block st (Heading t lvl)"

definition add_picture :: "conv_state \<Rightarrow> pystr \<Rightarrow> rat \<Rightarrow> conv_state" where
  "add_picture st path w = append_block st (Picture path w)"

definition add_page_break :: "conv_state \<Rightarrow> conv_state" where
  "add_page_break st = append_block st PageBreak"

section \<open>extract\_text\_runs\<close>

datatype error = Escaped

record run_data =
  rd_text :: pystr
  rd_bold :: "bool option"
  rd_italic :: "bool option"
  rd_underline :: "underline option"
  rd_size :: "rat option"
  rd_name :: "pystr option"
  rd_color :: "(int \<times> int \<times> int) option"

record para_data =
  is_bullet :: bool
  pd_runs :: "run_data list"

text \<open>\<open>RGBColor(r, g, b)\<close> raises ValueError unless each component is within 0..255.\<close>

definition RGBColor :: "int \<Rightarrow> int \<Rightarrow> int \<Rightarrow> (int \<times> int \<times> int) option" where
  "RGBColor r g b =
     (if 0 \<le> r \<and> r \<le> 255 \<and> 0 \<le> g \<and> g \<le> 255 \<and> 0 \<le> b \<and> b \<le> 255 then Some (r, g, b) else None)"

text \<open>
  The body of the \<open>try\<close> of lines 24 to 29, for the value that \<open>font.color.rgb\<close>
  returned: None and the empty sequence are falsy; \<open>rgb[0]\<close>, \<open>rgb[1]\<close>, \<open>rgb[2]\<close>
  raise IndexError on a shorter sequence; every exception leaves the colour None.
\<close>

fun color_of_value :: "int list option \<Rightarrow> (int \<times> int \<times> int) option" where
  "color_of_value None = None"
| "color_of_value (Some []) = None"
| "color_of_value (Some (r # g # b # _)) = RGBColor r g b"
| "color_of_value (Some _) = None"

text \<open>
  Lines 22 to 29. The test of line 23 is outside the \<open>try\<close>: an exception other than
  AttributeError that reading \<open>rgb\<close> raises passes through \<open>hasattr\<close> and leaves the
  function.
\<close>

fun extract_color :: "font_color \<Rightarrow> error + (int \<times> int \<times> int) option" where
  "extract_color ColorFalsy = Inr None"
| "extract_color (ColorObj RgbMissing) = Inr None"
| "extract_color (ColorObj RgbRaises) = Inl Escaped"
| "extract_color (ColorObj (RgbValue v)) = Inr (color_of_value v)"

text \<open>\<open>font.size.pt if font.size else None\<close>: a length of 0 is falsy; \<open>pt\<close> divides by 12700.\<close>

definition size_pt :: "int option \<Rightarrow> rat option" where
  "size_pt s = (case s of None \<Rightarrow> None | Some e \<Rightarrow> if e = 0 then None else Some (of_int e / 12700))"

definition extract_run :: "run \<Rightarrow> error + run_data" where
  "extract_run r =
     (case extract_color (font_color (run_font r)) of
        Inl e \<Rightarrow> Inl e
      | Inr color \<Rightarrow>
          Inr \<lparr>rd_text = run_text r,
               rd_bold = font_bold (run_font r),
               rd_italic = font_italic (run_font r),
               rd_underline = font_underline (run_font r),
               rd_size = size_pt (font_size (run_font r)),
               rd_name = font_name (run_font r),
               rd_color = color\<rparr>)"

text \<open>The loop of line 20 over the runs of one paragraph.\<close>

fun extract_runs :: "run list \<Rightarrow> error + run_data list" where
  "extract_runs [] = Inr []"
| "extract_runs (r # rs) =
     (case extract_run r of
        Inl e \<Rightarrow> Inl e
      | Inr d \<Rightarrow> (case extract_runs rs of Inl e \<Rightarrow> Inl e | Inr ds \<Rightarrow> Inr (d # ds)))"

definition extract_para :: "pptx_paragraph \<Rightarrow> error + para_data" where
  "extract_para p =
     (case extract_runs (para_runs p) of
        Inl e \<Rightarrow> Inl e
      | Inr ds \<Rightarrow>
          Inr \<lparr>is_bullet = (para_level p > 0 \<or> startswith (strip (para_text p)) bullet_glyph),
               pd_runs = ds\<rparr>)"

text \<open>The loop of line 15 over the paragraphs.\<close>

fun extract_paras :: "pptx_paragraph list \<Rightarrow> error + para_data list" where
  "extract_paras [] = Inr []"
| "extract_paras (p # ps) =
     (case extract_para p of
        Inl e \<Rightarrow> Inl e
      | Inr d \<Rightarrow> (case extract_paras ps of Inl e \<Rightarrow> Inl e | Inr ds \<Rightarrow> Inr (d # ds)))"

definition extract_text_runs :: "shape_attrs \<Rightarrow> error + para_data list" where
  "extract_text_runs a =
     (case text_frame a of
        None \<Rightarrow> Inr []
      | Some ps \<Rightarrow> extract_paras ps)"

section \<open>add\_text\_to\_docx\<close>

text \<open>
  Lines 49 to 58 for one run: size, name and colour are set only when truthy (a size of
  0 and an empty name are falsy; a colour is a triple, which is truthy).
\<close>

definition docx_run :: "run_data \<Rightarrow> drun" where
  "docx_run r =
     \<lparr>drun_text = rd_text r,
      drun_bold = rd_bold r,
      drun_italic = rd_italic r,
      drun_underline = rd_underline r,
      drun_size = (case rd_size r of None \<Rightarrow> None | Some s \<Rightarrow> if s = 0 then None else Some s),
      drun_name = (case rd_name r of None \<Rightarrow> None | Some n \<Rightarrow> if n = [] then None else Some n),
      drun_color = rd_color r\<rparr>"

definition docx_para :: "para_data \<Rightarrow> block" where
  "docx_para p =
     Paragraph (if is_bullet p then Some (lit ''List Bullet'') else None) (map docx_run (pd_runs p))"

fun add_text_to_docx :: "conv_state \<Rightarrow> para_data list \<Rightarrow> conv_state" where
  "add_text_to_docx st [] = st"
| "add_text_to_docx st (p # ps) = add_text_to_docx (append_block st (docx_para p)) ps"

section \<open>process\_shape\<close>

text \<open>The file name of line 76.\<close>

definition image_filename :: "pystr \<Rightarrow> nat \<Rightarrow> nat \<Rightarrow> pystr \<Rightarrow> pystr" where
  "image_filename image_dir slide_num image_count image_format =
     image_dir @ lit ''/image_'' @ str_nat slide_num @ lit ''_'' @ str_nat image_count @
     lit ''.'' @ image_format"

text \<open>
  Lines 79 to 83: the pixel width over 96, at most 5; 3 when reopening or measuring
  raised. The quotient is the exact one.
\<close>

definition width_inches :: "embedded_image \<Rightarrow> rat" where
  "width_inches img =
     (case image_px_width img of
        Some w \<Rightarrow> min 5 (of_nat w / 96)
      | None \<Rightarrow> 3)"

text \<open>Lines 91 to 93: the cell assignments, row by row.\<close>

definition cell_writes :: "pystr list list \<Rightarrow> ((nat \<times> nat) \<times> pystr) list" where
  "cell_writes rows =
     concat (map (\<lambda>(r_idx, row). map (\<lambda>(c_idx, cell). ((r_idx, c_idx), cell)) (enumerate 0 row))
                 (enumerate 0 rows))"

definition add_table :: "conv_state \<Rightarrow> pptx_table \<Rightarrow> conv_state" where
  "add_table st t =
     append_block st
       (Table (length (table_rows t)) (table_columns t) (lit ''Table Grid'') (cell_writes (table_rows t)))"

text \<open>
  Lines 69 to 104, the chain of \<open>if\<close> and \<open>elif\<close> that a visible shape which is not
  handled as a group reaches. The result is the returned image counter, or the exception
  that left the function, together with the state reached.
\<close>

definition process_leaf ::
  "conv_state \<Rightarrow> shape_attrs \<Rightarrow> nat \<Rightarrow> nat \<Rightarrow> pystr \<Rightarrow> (error + nat) \<times> conv_state" where
  "process_leaf st a slide_num image_count image_dir =
     (if has_text_frame a then
        (case extract_text_runs a of
           Inl e \<Rightarrow> (Inl e, st)
         | Inr text_content \<Rightarrow> (Inr image_count, add_text_to_docx st text_content))
      else if shape_type a = 13 \<and> image a \<noteq> None then
        (let img = the (image a);
             filename = image_filename image_dir slide_num image_count (image_ext img);
             st1 = write_file st filename (Blob (image_blob img));
             st2 = add_picture st1 filename (width_inches img)
         in (Inr (image_count + 1), st2))
      else if has_table a then
        (Inr image_count, add_table st (the (table a)))
      else if shape_type a = 3 \<and> py_in (lit ''Chart'') (name a) then
        (Inr image_count, add_paragraph st (lit ''[Chart Placeholder: Cannot render chart image]''))
      else if py_in (lit ''SmartArt'') (name a) then
        (let st1 = add_paragraph st (lit ''[SmartArt Placeholder]'') in
         if has_text_frame a then
           (case extract_text_runs a of
              Inl e \<Rightarrow> (Inl e, st1)
            | Inr text_content \<Rightarrow> (Inr image_count, add_text_to_docx st1 text_content))
         else (Inr image_count, st1))
      else (Inr image_count, st))"

text \<open>
  \<open>process_shape\<close>, lines 60 to 104, with \<open>process_shapes\<close> for the loop over a list
  of shapes that threads the image counter (lines 65 and 66, and lines 117 and 118).
\<close>

fun process_shape ::
    "conv_state \<Rightarrow> shape \<Rightarrow> nat \<Rightarrow> nat \<Rightarrow> pystr \<Rightarrow> (error + nat) \<times> conv_state"
  and process_shapes ::
    "conv_state \<Rightarrow> shape list \<Rightarrow> nat \<Rightarrow> nat \<Rightarrow> pystr \<Rightarrow> (error + nat) \<times> conv_state" where
  "process_shape st (Shape a subs) slide_num image_count image_dir =
     (if visible a = Some False then (Inr image_count, st)
      else if shape_type a = 6 \<and> subs \<noteq> None then
        process_shapes st (the subs) slide_num image_count image_dir
      else process_leaf st a slide_num image_count image_dir)"
| "process_shapes st [] slide_num image_count image_dir = (Inr image_count, st)"
| "process_shapes st (s # ss) slide_num image_count image_dir =
     (case process_shape st s slide_num image_count image_dir of
        (Inl e, st') \<Rightarrow> (Inl e, st')
      | (Inr image_count', st') \<Rightarrow> process_shapes st' ss slide_num image_count' image_dir)"

section \<open>pptx\_to\_docx\<close>

text \<open>
  A presentation is the list of its slides, a slide the list of its shapes. The loop of
  lines 115 to 119, from slide index \<open>i\<close> on.
\<close>

fun pptx_slides ::
    "conv_state \<Rightarrow> nat \<Rightarrow> shape list list \<Rightarrow> nat \<Rightarrow> pystr \<Rightarrow> (error + nat) \<times> conv_state" where
  "pptx_slides st i [] image_count image_dir = (Inr image_count, st)"
| "pptx_slides st i (slide # rest) image_count image_dir =
     (let st1 = add_heading st (lit ''Slide '' @ str_nat (i + 1)) 1 in
      case process_shapes st1 slide (i + 1) image_count image_dir of
        (Inl e, st2) \<Rightarrow> (Inl e, st2)
      | (Inr image_count', st2) \<Rightarrow>
          pptx_slides (add_page_break st2) (i + 1) rest image_count' image_dir)"

text \<open>
  The result is the document that \<open>doc.save\<close> writes, or the exception that ended the
  run before the save, together with the final state (the image files written).
\<close>

definition pptx_to_docx :: "shape list list \<Rightarrow> pystr \<Rightarrow> (error + block list) \<times> conv_state" where
  "pptx_to_docx prs image_dir =
     (case pptx_slides Document 0 prs 0 image_dir of
        (Inl e, st) \<Rightarrow> (Inl e, st)
      | (Inr image_count, st) \<Rightarrow> (Inr (doc st), st))"

section \<open>pdf\_to\_docx\<close>

text \<open>
  A page: its text and, for each entry of \<open>page.get_images\<close>, the pixmap that
  \<open>fitz.Pixmap(pdf, xref)\<close> builds.
\<close>

record pdf_page =
  page_text :: pystr
  page_images :: "pixmap_data list"

definition page_img_path :: "pystr \<Rightarrow> nat \<Rightarrow> nat \<Rightarrow> pystr" where
  "page_img_path image_dir i j =
     image_dir @ lit ''/page_'' @ str_nat (i + 1) @ lit ''_img_'' @ str_nat (j + 1) @ lit ''.png''"

text \<open>Lines 145 to 149: what is saved for one pixmap.\<close>

definition save_pixmap :: "conv_state \<Rightarrow> pystr \<Rightarrow> pixmap_data \<Rightarrow> conv_state" where
  "save_pixmap st img_path pix =
     (if pix_n pix < 5 then write_file st img_path (SavedAsIs pix)
      else write_file st img_path (SavedAsRGB pix))"

text \<open>The loop of lines 141 to 150, from image index \<open>j\<close> on.\<close>

fun pdf_images :: "conv_state \<Rightarrow> nat \<Rightarrow> nat \<Rightarrow> pixmap_data list \<Rightarrow> pystr \<Rightarrow> conv_state" where
  "pdf_images st i j [] image_dir = st"
| "pdf_images st i j (pix # rest) image_dir =
     (let img_path = page_img_path image_dir i j;
          st1 = save_pixmap st img_path pix;
          st2 = add_picture st1 img_path 4
      in pdf_images st2 i (j + 1) rest image_dir)"

text \<open>The loop of lines 136 and 137.\<close>

fun add_lines :: "conv_state \<Rightarrow> pystr list \<Rightarrow> conv_state" where
  "add_lines st [] = st"
| "add_lines st (line # rest) = add_lines (add_paragraph st line) rest"

text \<open>The loop of lines 131 to 151, from page index \<open>i\<close> on.\<close>

fun pdf_pages :: "conv_state \<Rightarrow> nat \<Rightarrow> pdf_page list \<Rightarrow> pystr \<Rightarrow> conv_state" where
  "pdf_pages st i [] image_dir = st"
| "pdf_pages st i (page # rest) image_dir =
     (let st1 = add_heading st (lit ''Page '' @ str_nat (i + 1)) 1;
          st2 = add_lines st1 (split_on 10 (page_text page));
          st3 = pdf_images st2 i 0 (page_images page) image_dir;
          st4 = add_page_break st3
      in pdf_pages st4 (i + 1) rest image_dir)"

definition pdf_to_docx :: "pdf_page list \<Rightarrow> pystr \<Rightarrow> conv_state" where
  "pdf_to_docx pdf image_dir = pdf_pages Document 0 pdf image_dir"

section \<open>Notions for the properties\<close>

text \<open>Two states put end to end: the blocks and the files of the second after those of the first.\<close>

definition st_append :: "conv_state \<Rightarrow> conv_state \<Rightarrow> conv_state" where
  "st_append s t = \<lparr>doc = doc s @ doc t, files = files s @ files t\<rparr>"









text \<open>
  A list of written files is numbered when the file at position \<open>j\<close> carries the image
  counter \<open>j\<close> in its name.
\<close>

definition numbered :: "pystr \<Rightarrow> (pystr \<times> file_content) list \<Rightarrow> bool" where
  "numbered d fs \<longleftrightarrow> (\<forall>j<length fs. \<exists>n e. fst (fs ! j) = image_filename d n j e)"

section \<open>Example inputs\<close>

definition ex_font :: font where
  "ex_font = \<lparr>font_bold = None, font_italic = None, font_underline = None, font_size = None,
     font_name = None, font_color = ColorFalsy\<rparr>"

definition ex_run :: "pystr \<Rightarrow> run" where
  "ex_run t = \<lparr>run_text = t, run_font = ex_font\<rparr>"

definition ex_para :: "pystr \<Rightarrow> pptx_paragraph" where
  "ex_para t = \<lparr>para_level = 0, para_text = t, para_runs = [ex_run t]\<rparr>"

definition ex_attrs :: shape_attrs where
  "ex_attrs = \<lparr>visible = None, shape_type = 1, text_frame = None, image = None, table = None,
     name = lit ''Shape 1''\<rparr>"




text \<open>An auto shape named "SmartArt 1" that carries the paragraph "Hi", and one without a text frame.\<close>

definition ex_smartart_text :: shape where
  "ex_smartart_text = Shape (ex_attrs\<lparr>text_frame := Some [ex_para (lit ''Hi'')],
     name := lit ''SmartArt 1''\<rparr>) None"

definition ex_smartart :: shape where
  "ex_smartart = Shape (ex_attrs\<lparr>shape_type := 3, name := lit ''SmartArt 1''\<rparr>) None"

text \<open>A picture that reopens with a width of 192 pixels, and one that cannot be reopened.\<close>

definition ex_picture :: shape where
  "ex_picture = Shape (ex_attrs\<lparr>shape_type := 13,
     image := Some \<lparr>image_ext = lit ''png'', image_blob = [137, 80, 78, 71], image_px_width = Some 192\<rparr>,
     name := lit ''Picture 1''\<rparr>) None"


text \<open>A paragraph of level 0 whose text is a space, the bullet glyph, a space and "x".\<close>

definition ex_spaced_bullet :: pptx_paragraph where
  "ex_spaced_bullet = ex_para [32, 8226, 32, 120]"

definition ex_spaced_bullet_box :: shape where
  "ex_spaced_bullet_box = Shape (ex_attrs\<lparr>shape_type := 17, text_frame := Some [ex_spaced_bullet],
     name := lit ''TextBox 2''\<rparr>) None"

text \<open>
  A text box of two paragraphs; reading \<open>rgb\<close> on the colour of its first run raises an
  exception that is not AttributeError.
\<close>

definition ex_bad_color_run :: run where
  "ex_bad_color_run = \<lparr>run_text = lit ''Hi'', run_font = ex_font\<lparr>font_color := ColorObj RgbRaises\<rparr>\<rparr>"

definition ex_bad_color_box :: shape where
  "ex_bad_color_box = Shape (ex_attrs\<lparr>shape_type := 17,
     text_frame := Some [\<lparr>para_level = 0, para_text = lit ''Hi'', para_runs = [ex_bad_color_run]\<rparr>,
                         ex_para (lit ''there'')],
     name := lit ''TextBox 3''\<rparr>) None"




section \<open>The state operations\<close>

lemma files_append_block [simp]: "files (append_block st b) = files st"
  by (simp add: append_block_def)

lemma doc_append_block [simp]: "doc (append_block st b) = doc st @ [b]"
  by (simp add: append_block_def)

lemma files_write_file [simp]: "files (write_file st p c) = files st @ [(p, c)]"
  by (simp add: write_file_def)

lemma doc_write_file [simp]: "doc (write_file st p c) = doc st"
  by (simp add: write_file_def)

section \<open>The shape processor: shapes that contribute nothing\<close>






section \<open>The shape processor: SmartArt\<close>

text \<open>
  A shape with "SmartArt" in its name that reaches its branch (no text frame, not a
  picture, a table or a chart) yields the placeholder paragraph and nothing else.
\<close>

lemma smartart_placeholder:
  "visible a \<noteq> Some False \<Longrightarrow>
   \<not> (shape_type a = 6 \<and> subs \<noteq> None) \<Longrightarrow>
   \<not> has_text_frame a \<Longrightarrow>
   \<not> (shape_type a = 13 \<and> image a \<noteq> None) \<Longrightarrow>
   \<not> has_table a \<Longrightarrow>
   \<not> (shape_type a = 3 \<and> py_in (lit ''Chart'') (name a)) \<Longrightarrow>
   py_in (lit ''SmartArt'') (name a) \<Longrightarrow>
   process_shape st (Shape a subs) slide_num image_count image_dir =
     (Inr image_count, add_paragraph st (lit ''[SmartArt Placeholder]''))"
  by (auto simp: process_leaf_def Let_def)

text \<open>
  C1. The branch for a name with "SmartArt" comes after the branch for a text frame in
  one chain of \<open>elif\<close>, so a shape with such a name and a text frame is handled as text
  alone: the visible auto shape "SmartArt 1" with the paragraph "Hi" yields that paragraph
  and no placeholder. Without a text frame, the same name yields the placeholder.
\<close>

theorem smartart_text_frame_no_placeholder:
  "visible (attrs ex_smartart_text) \<noteq> Some False \<and>
   shapes ex_smartart_text = None \<and>
   py_in (lit ''SmartArt'') (name (attrs ex_smartart_text)) \<and>
   has_text_frame (attrs ex_smartart_text) \<and>
   process_shape Document ex_smartart_text 1 0 (lit ''pptx_images'') =
     (Inr 0, \<lparr>doc = [Paragraph None [plain_run (lit ''Hi'')]], files = []\<rparr>) \<and>
   process_shape Document ex_smartart 1 0 (lit ''pptx_images'') =
     (Inr 0, \<lparr>doc = [Paragraph None [plain_run (lit ''[SmartArt Placeholder]'')]], files = []\<rparr>)"
  by (simp add: ex_smartart_text_def ex_smartart_def ex_attrs_def ex_para_def ex_run_def ex_font_def
      process_leaf_def has_text_frame_def has_table_def extract_text_runs_def extract_para_def extract_run_def
      size_pt_def docx_para_def docx_run_def plain_run_def append_block_def add_paragraph_def Document_def
      lit_def startswith_def strip_def py_isspace_def bullet_glyph_def)

section \<open>The shape processor: pictures\<close>



lemma readable_picture_example:
  "process_shape Document ex_picture 2 7 (lit ''pptx_images'') =
     (Inr 8,
      \<lparr>doc = [Picture (lit ''pptx_images/image_2_7.png'') 2],
       files = [(lit ''pptx_images/image_2_7.png'', Blob [137, 80, 78, 71])]\<rparr>)"
  by (simp add: ex_picture_def ex_attrs_def has_text_frame_def image_filename_def process_leaf_def width_inches_def Let_def
      lit_def str_nat.simps add_picture_def write_file_def append_block_def Document_def)

section \<open>The run and paragraph extractor\<close>

lemma extract_paras_is_bullet:
  "extract_paras ps = Inr tc \<Longrightarrow>
     map is_bullet tc =
       map (\<lambda>p. para_level p > 0 \<or> startswith (strip (para_text p)) bullet_glyph) ps"
proof (induction ps arbitrary: tc)
  case Nil
  then show ?case by simp
next
  case (Cons p ps)
  from Cons.prems obtain d ds where d: "extract_para p = Inr d"
    and ds: "extract_paras ps = Inr ds" and tc: "tc = d # ds"
    by (auto split: sum.splits)
  from d have "is_bullet d = (para_level p > 0 \<or> startswith (strip (para_text p)) bullet_glyph)"
    by (auto simp: extract_para_def split: sum.splits)
  with Cons.IH [OF ds] tc show ?case by simp
qed

lemma doc_add_text_to_docx:
  "doc (add_text_to_docx st tc) = doc st @ map docx_para tc"
  by (induction tc arbitrary: st) simp_all

lemma files_add_text_to_docx [simp]:
  "files (add_text_to_docx st tc) = files st"
  by (induction tc arbitrary: st) simp_all

text \<open>
  C5, as the code has it. For a text frame whose extraction returns, the extracted
  paragraphs match the source paragraphs one to one, and a paragraph is marked as a bullet
  exactly when its level is above zero or its text, with the white space at both ends
  removed, starts with the bullet glyph. Each extracted paragraph becomes one output
  paragraph, of style "List Bullet" when it is marked and of the default style otherwise.
\<close>

theorem bullet_detection:
  assumes "text_frame a = Some ps" and "extract_text_runs a = Inr text_content"
  shows "map is_bullet text_content =
           map (\<lambda>p. para_level p > 0 \<or> startswith (strip (para_text p)) bullet_glyph) ps \<and>
         doc (add_text_to_docx st text_content) =
           doc st @ map (\<lambda>d. Paragraph (if is_bullet d then Some (lit ''List Bullet'') else None)
                                (map docx_run (pd_runs d))) text_content"
proof
  from assms have "extract_paras ps = Inr text_content"
    by (simp add: extract_text_runs_def)
  then show "map is_bullet text_content =
      map (\<lambda>p. para_level p > 0 \<or> startswith (strip (para_text p)) bullet_glyph) ps"
    by (rule extract_paras_is_bullet)
next
  have "map docx_para text_content =
      map (\<lambda>d. Paragraph (if is_bullet d then Some (lit ''List Bullet'') else None)
                 (map docx_run (pd_runs d))) text_content"
    by (simp add: docx_para_def)
  then show "doc (add_text_to_docx st text_content) =
      doc st @ map (\<lambda>d. Paragraph (if is_bullet d then Some (lit ''List Bullet'') else None)
                          (map docx_run (pd_runs d))) text_content"
    by (simp add: doc_add_text_to_docx)
qed

lemma ex_spaced_bullet_extract:
  "extract_text_runs (attrs ex_spaced_bullet_box) =
     Inr [\<lparr>is_bullet = True,
           pd_runs = [\<lparr>rd_text = [32, 8226, 32, 120], rd_bold = None, rd_italic = None,
                       rd_underline = None, rd_size = None, rd_name = None, rd_color = None\<rparr>]\<rparr>]"
  by (simp add: ex_spaced_bullet_box_def ex_spaced_bullet_def ex_attrs_def ex_para_def ex_run_def
      ex_font_def extract_text_runs_def extract_para_def extract_run_def size_pt_def
      startswith_def strip_def py_isspace_def bullet_glyph_def)

theorem bullet_detection_witness:
  "text_frame (attrs ex_spaced_bullet_box) = Some [ex_spaced_bullet] \<and>
   map is_bullet
     [\<lparr>is_bullet = True,
       pd_runs = [\<lparr>rd_text = [32, 8226, 32, 120], rd_bold = None, rd_italic = None,
                   rd_underline = None, rd_size = None, rd_name = None, rd_color = None\<rparr>]\<rparr>] =
     [startswith (strip (para_text ex_spaced_bullet)) bullet_glyph] \<and>
   doc (add_text_to_docx Document
     [\<lparr>is_bullet = True,
       pd_runs = [\<lparr>rd_text = [32, 8226, 32, 120], rd_bold = None, rd_italic = None,
                   rd_underline = None, rd_size = None, rd_name = None, rd_color = None\<rparr>]\<rparr>]) =
     [Paragraph (Some (lit ''List Bullet'')) [plain_run [32, 8226, 32, 120]]]"
  using bullet_detection [of "attrs ex_spaced_bullet_box" "[ex_spaced_bullet]" _ Document,
      OF _ ex_spaced_bullet_extract]
  by (simp add: ex_spaced_bullet_box_def ex_spaced_bullet_def ex_attrs_def ex_para_def
      docx_run_def plain_run_def Document_def)

text \<open>
  C5 as stated, with the text itself in place of the stripped text, fails: the paragraph
  of level 0 whose text is a space, the glyph, a space and "x" is marked as a bullet, and its text does not start with
  the glyph.
\<close>

theorem bullet_by_text_start_counterexample:
  "extract_text_runs (attrs ex_spaced_bullet_box) =
     Inr [\<lparr>is_bullet = True,
           pd_runs = [\<lparr>rd_text = [32, 8226, 32, 120], rd_bold = None, rd_italic = None,
                       rd_underline = None, rd_size = None, rd_name = None, rd_color = None\<rparr>]\<rparr>] \<and>
   text_frame (attrs ex_spaced_bullet_box) = Some [ex_spaced_bullet] \<and>
   \<not> (para_level ex_spaced_bullet > 0 \<or> startswith (para_text ex_spaced_bullet) bullet_glyph)"
  by (simp add: ex_spaced_bullet_box_def ex_spaced_bullet_def ex_attrs_def ex_para_def ex_run_def
      ex_font_def extract_text_runs_def extract_para_def extract_run_def size_pt_def
      startswith_def strip_def py_isspace_def bullet_glyph_def)

text \<open>
  Colour data that the \<open>try\<close> of lines 24 to 29 or the test of line 23 absorbs: a falsy
  \<open>font.color\<close>, an absent \<open>rgb\<close>, an \<open>rgb\<close> that is None, one with fewer than three
  components, one with a component outside 0..255. The colour is None in each case.
\<close>

lemma malformed_color_is_None:
  "extract_color ColorFalsy = Inr None"
  "extract_color (ColorObj RgbMissing) = Inr None"
  "extract_color (ColorObj (RgbValue None)) = Inr None"
  "length cs < 3 \<Longrightarrow> extract_color (ColorObj (RgbValue (Some cs))) = Inr None"
  "r < 0 \<or> 255 < r \<or> g < 0 \<or> 255 < g \<or> b < 0 \<or> 255 < b \<Longrightarrow>
     extract_color (ColorObj (RgbValue (Some (r # g # b # cs)))) = Inr None"
proof -
  show "length cs < 3 \<Longrightarrow> extract_color (ColorObj (RgbValue (Some cs))) = Inr None"
    by (cases "Some cs" rule: color_of_value.cases) auto
qed (auto simp: RGBColor_def)

text \<open>
  C7. Reading \<open>rgb\<close> first happens in the \<open>hasattr\<close> of line 23, outside the \<open>try\<close>.
  When that read raises an exception other than AttributeError, the exception leaves
  \<open>extract_text_runs\<close>: nothing of the text frame is extracted, the second paragraph
  included, and the conversion ends without a saved document.
\<close>

theorem raising_rgb_escapes:
  "extract_text_runs (attrs ex_bad_color_box) = Inl Escaped \<and>
   process_shape Document ex_bad_color_box 1 0 (lit ''pptx_images'') = (Inl Escaped, Document) \<and>
   pptx_to_docx [[ex_bad_color_box]] (lit ''pptx_images'') =
     (Inl Escaped, \<lparr>doc = [Heading (lit ''Slide 1'') 1], files = []\<rparr>)"
  by (simp add: ex_bad_color_box_def ex_bad_color_run_def ex_attrs_def ex_para_def ex_run_def ex_font_def
      process_leaf_def has_text_frame_def extract_text_runs_def extract_para_def extract_run_def
      pptx_to_docx_def add_heading_def append_block_def Document_def lit_def str_nat.simps)

section \<open>The files of the PDF pipeline\<close>

lemma files_add_paragraph [simp]: "files (add_paragraph st t) = files st"
  by (simp add: add_paragraph_def)

lemma files_add_heading [simp]: "files (add_heading st t l) = files st"
  by (simp add: add_heading_def)

lemma files_add_picture [simp]: "files (add_picture st p w) = files st"
  by (simp add: add_picture_def)

lemma files_add_page_break [simp]: "files (add_page_break st) = files st"
  by (simp add: add_page_break_def)

lemma files_add_lines [simp]: "files (add_lines st ls) = files st"
  by (induction ls arbitrary: st) simp_all

lemma files_save_pixmap [simp]:
  "files (save_pixmap st p pix) = files st @ [(p, if 5 \<le> pix_n pix then SavedAsRGB pix else SavedAsIs pix)]"
  by (simp add: save_pixmap_def)






section \<open>Appending to any state\<close>

lemma conv_state_eq_iff: "(s = t) \<longleftrightarrow> doc s = doc t \<and> files s = files t"
  for s t :: conv_state
  by (cases s, cases t) auto

lemma doc_Document [simp]: "doc Document = []"
  and files_Document [simp]: "files Document = []"
  by (simp_all add: Document_def)

lemma doc_st_append [simp]: "doc (st_append s t) = doc s @ doc t"
  and files_st_append [simp]: "files (st_append s t) = files s @ files t"
  by (simp_all add: st_append_def)

lemma st_append_Document [simp]: "st_append st Document = st" "st_append Document st = st"
  by (simp_all add: conv_state_eq_iff)

lemma st_append_assoc: "st_append (st_append s t) u = st_append s (st_append t u)"
  by (simp add: conv_state_eq_iff)

lemma doc_add_paragraph [simp]:
  "doc (add_paragraph st t) = doc st @ [Paragraph None (if t = [] then [] else [plain_run t])]"
  by (simp add: add_paragraph_def)

lemma doc_add_heading [simp]: "doc (add_heading st t l) = doc st @ [Heading t l]"
  by (simp add: add_heading_def)

lemma doc_add_picture [simp]: "doc (add_picture st p w) = doc st @ [Picture p w]"
  by (simp add: add_picture_def)

lemma doc_add_page_break [simp]: "doc (add_page_break st) = doc st @ [PageBreak]"
  by (simp add: add_page_break_def)

lemma doc_add_table [simp]:
  "doc (add_table st t) =
     doc st @ [Table (length (table_rows t)) (table_columns t) (lit ''Table Grid'') (cell_writes (table_rows t))]"
  by (simp add: add_table_def)

lemma files_add_table [simp]: "files (add_table st t) = files st"
  by (simp add: add_table_def)

lemma process_leaf_frame_eq:
  "process_leaf st a n c d =
     (fst (process_leaf Document a n c d), st_append st (snd (process_leaf Document a n c d)))"
  by (auto simp: process_leaf_def Let_def conv_state_eq_iff doc_add_text_to_docx split: sum.splits)

lemma process_leaf_frame:
  "process_leaf Document a n c d = (r, t) \<Longrightarrow> process_leaf st a n c d = (r, st_append st t)"
  by (subst process_leaf_frame_eq) simp

lemma process_shapes_frame_aux:
  assumes "\<And>s st c r t. s \<in> set ss \<Longrightarrow> process_shape Document s n c d = (r, t) \<Longrightarrow>
      process_shape st s n c d = (r, st_append st t)"
    and "process_shapes Document ss n c d = (r, t)"
  shows "process_shapes st ss n c d = (r, st_append st t)"
  using assms
proof (induction ss arbitrary: st c r t)
  case Nil
  then show ?case by auto
next
  case (Cons s ss)
  obtain r1 t1 where rt: "process_shape Document s n c d = (r1, t1)"
    by (cases "process_shape Document s n c d")
  have here: "process_shape u s n c d = (r1, st_append u t1)" for u
    by (rule Cons.prems(1) [OF _ rt]) simp
  show ?case
  proof (cases r1)
    case (Inl e)
    from Cons.prems(2) rt Inl have "r = Inl e" and "t = t1" by simp_all
    with here [of st] Inl show ?thesis by simp
  next
    case (Inr c')
    obtain r2 t2 where rt2: "process_shapes Document ss n c' d = (r2, t2)"
      by (cases "process_shapes Document ss n c' d")
    have rest: "process_shapes u ss n c' d = (r2, st_append u t2)" for u
      by (rule Cons.IH [OF _ rt2]) (rule Cons.prems(1), simp_all)
    from Cons.prems(2) rt Inr have "process_shapes t1 ss n c' d = (r, t)" by simp
    with rest [of t1] have r: "r = r2" and t: "t = st_append t1 t2" by simp_all
    have "process_shapes st (s # ss) n c d = process_shapes (st_append st t1) ss n c' d"
      using here [of st] Inr by simp
    also have "\<dots> = (r2, st_append (st_append st t1) t2)"
      by (rule rest)
    finally show ?thesis
      using r t by (simp add: st_append_assoc)
  qed
qed

lemma process_shape_frame:
  "process_shape Document s n c d = (r, t) \<Longrightarrow> process_shape st s n c d = (r, st_append st t)"
proof (induction s arbitrary: st c r t)
  case (Shape a subs)
  show ?case
  proof (cases "visible a = Some False")
    case True
    with Shape.prems show ?thesis by auto
  next
    case vis: False
    show ?thesis
    proof (cases "shape_type a = 6 \<and> subs \<noteq> None")
      case True
      then obtain ss where ss: "subs = Some ss" by auto
      from Shape.prems vis True ss have doc: "process_shapes Document ss n c d = (r, t)"
        by simp
      have "process_shapes st ss n c d = (r, st_append st t)"
      proof (rule process_shapes_frame_aux [OF _ doc])
        fix s' st' c' r' t'
        assume "s' \<in> set ss" and "process_shape Document s' n c' d = (r', t')"
        with ss show "process_shape st' s' n c' d = (r', st_append st' t')"
          by (intro Shape.IH [of ss s']) simp_all
      qed
      with vis True ss show ?thesis by simp
    next
      case False
      with vis Shape.prems have "process_leaf Document a n c d = (r, t)" by auto
      then have "process_leaf st a n c d = (r, st_append st t)"
        by (rule process_leaf_frame)
      with vis False show ?thesis by auto
    qed
  qed
qed

lemma process_shapes_frame:
  "process_shapes Document ss n c d = (r, t) \<Longrightarrow> process_shapes st ss n c d = (r, st_append st t)"
  by (rule process_shapes_frame_aux) (rule process_shape_frame)

section \<open>Decimal numerals and file names\<close>

lemma str_nat_nonempty: "str_nat n \<noteq> []"
  by (subst str_nat.simps) simp

lemma str_nat_digits: "x \<in> set (str_nat n) \<Longrightarrow> 48 \<le> x \<and> x \<le> 57"
proof (induction n rule: str_nat.induct)
  case (1 n)
  from "1.prems" have "(n < 10 \<and> x = 48 + n) \<or>
      (\<not> n < 10 \<and> (x \<in> set (str_nat (n div 10)) \<or> x = 48 + n mod 10))"
    by (subst (asm) str_nat.simps) (auto split: if_splits)
  moreover have "n mod 10 < 10" by simp
  ultimately show ?case using "1.IH" by auto
qed

lemma str_nat_inj: "str_nat m = str_nat n \<Longrightarrow> m = n"
proof (induction m arbitrary: n rule: str_nat.induct)
  case (1 m)
  show ?case
  proof (cases "m < 10")
    case True
    then have m: "str_nat m = [48 + m]" by (subst str_nat.simps) simp
    show ?thesis
    proof (cases "n < 10")
      case True
      then have "str_nat n = [48 + n]" by (subst str_nat.simps) simp
      with m "1.prems" show ?thesis by simp
    next
      case False
      then have "str_nat n = str_nat (n div 10) @ [48 + n mod 10]"
        by (subst str_nat.simps) simp
      with m "1.prems" have "str_nat (n div 10) = []" by simp
      with str_nat_nonempty show ?thesis by blast
    qed
  next
    case False
    then have m: "str_nat m = str_nat (m div 10) @ [48 + m mod 10]"
      by (subst str_nat.simps) simp
    show ?thesis
    proof (cases "n < 10")
      case True
      then have "str_nat n = [48 + n]" by (subst str_nat.simps) simp
      with m "1.prems" have "str_nat (m div 10) = []" by simp
      with str_nat_nonempty show ?thesis by blast
    next
      case n: False
      then have "str_nat n = str_nat (n div 10) @ [48 + n mod 10]"
        by (subst str_nat.simps) simp
      with m "1.prems" have eq: "str_nat (m div 10) = str_nat (n div 10)"
        and md: "m mod 10 = n mod 10" by simp_all
      from "1.IH" [OF False eq] have "m div 10 = n div 10" .
      with md show ?thesis by (metis div_mult_mod_eq)
    qed
  qed
qed

lemma sep_split:
  "sep \<notin> set a \<Longrightarrow> sep \<notin> set b \<Longrightarrow> a @ sep # r = b @ sep # r' \<Longrightarrow> a = b \<and> r = r'"
proof (induction a arbitrary: b)
  case Nil
  then show ?case by (cases b) auto
next
  case (Cons x a)
  then show ?case by (cases b) auto
qed

lemma no_underscore_in_digits: "95 \<notin> set (str_nat n)"
  using str_nat_digits [of 95 n] by auto

lemma no_dot_in_digits: "46 \<notin> set (str_nat n)"
  using str_nat_digits [of 46 n] by auto

lemma image_filename_inj:
  assumes "image_filename d n k e = image_filename d n' k' e'"
  shows "k = k'"
proof -
  from assms have "str_nat n @ 95 # (str_nat k @ 46 # e) = str_nat n' @ 95 # (str_nat k' @ 46 # e')"
    by (simp add: image_filename_def lit_def)
  then have "str_nat k @ 46 # e = str_nat k' @ 46 # e'"
    using sep_split [OF no_underscore_in_digits no_underscore_in_digits] by blast
  then have "str_nat k = str_nat k'"
    using sep_split [OF no_dot_in_digits no_dot_in_digits] by blast
  then show ?thesis by (rule str_nat_inj)
qed

lemma page_img_path_inj:
  assumes "page_img_path d i j = page_img_path d i' j'"
  shows "i = i' \<and> j = j'"
proof -
  from assms have "str_nat (Suc i) @ 95 # (105 # 109 # 103 # 95 # str_nat (Suc j) @ 46 # [112, 110, 103]) =
      str_nat (Suc i') @ 95 # (105 # 109 # 103 # 95 # str_nat (Suc j') @ 46 # [112, 110, 103])"
    by (simp add: page_img_path_def lit_def)
  then have i: "str_nat (Suc i) = str_nat (Suc i')"
    and "105 # 109 # 103 # 95 # str_nat (Suc j) @ 46 # [112, 110, 103] =
         105 # 109 # 103 # 95 # str_nat (Suc j') @ 46 # [112, 110, 103]"
    using sep_split [OF no_underscore_in_digits no_underscore_in_digits] by blast+
  then have "str_nat (Suc j) @ 46 # [112, 110, 103] = str_nat (Suc j') @ 46 # [112, 110, 103]"
    by simp
  then have "str_nat (Suc j) = str_nat (Suc j')"
    using sep_split [OF no_dot_in_digits no_dot_in_digits] by blast
  with i show ?thesis by (auto dest: str_nat_inj)
qed

section \<open>Evaluating the examples\<close>



section \<open>The shape processor: groups\<close>








section \<open>The block order of the output\<close>











lemma doc_save_pixmap [simp]: "doc (save_pixmap st p pix) = doc st"
  by (simp add: save_pixmap_def)








section \<open>The names of the image files\<close>

text \<open>
  In the PPTX pipeline the image counter equals the number of files written so far, and
  each file carries the counter of the moment in its name; this holds along the whole
  walk, also when an exception ends it.
\<close>

lemma numbered_Nil [simp]: "numbered d []"
  by (simp add: numbered_def)

lemma numbered_snoc:
  assumes "numbered d fs"
  shows "numbered d (fs @ [(image_filename d n (length fs) e, x)])"
  unfolding numbered_def
proof (intro allI impI)
  fix j
  assume j: "j < length (fs @ [(image_filename d n (length fs) e, x)])"
  show "\<exists>n' e'. fst ((fs @ [(image_filename d n (length fs) e, x)]) ! j) = image_filename d n' j e'"
  proof (cases "j < length fs")
    case True
    with assms show ?thesis by (simp add: numbered_def nth_append)
  next
    case False
    with j have "j = length fs" by simp
    then show ?thesis by (intro exI [of _ n] exI [of _ e]) simp
  qed
qed

lemma numbered_distinct:
  assumes "numbered d fs"
  shows "distinct (map fst fs)"
proof (unfold distinct_conv_nth, intro allI impI)
  fix i j
  assume i: "i < length (map fst fs)" and j: "j < length (map fst fs)" and ne: "i \<noteq> j"
  from assms i obtain n e where a: "fst (fs ! i) = image_filename d n i e"
    by (auto simp: numbered_def)
  from assms j obtain n' e' where b: "fst (fs ! j) = image_filename d n' j e'"
    by (auto simp: numbered_def)
  show "map fst fs ! i \<noteq> map fst fs ! j"
  proof
    assume "map fst fs ! i = map fst fs ! j"
    with i j a b have "image_filename d n i e = image_filename d n' j e'" by simp
    then have "i = j" by (rule image_filename_inj)
    with ne show False by contradiction
  qed
qed

lemma process_leaf_numbered:
  assumes "numbered d (files st)" and "length (files st) = c"
    and "process_leaf st a n c d = (r, st')"
  shows "numbered d (files st') \<and> (\<forall>c'. r = Inr c' \<longrightarrow> length (files st') = c')"
  using assms numbered_snoc [of d "files st" n "image_ext (the (image a))" "Blob (image_blob (the (image a)))"]
  by (auto simp: process_leaf_def Let_def split: if_splits sum.splits)

lemma process_shapes_numbered_aux:
  assumes "\<And>s st c r st'. s \<in> set ss \<Longrightarrow> numbered d (files st) \<Longrightarrow> length (files st) = c \<Longrightarrow>
      process_shape st s n c d = (r, st') \<Longrightarrow>
      numbered d (files st') \<and> (\<forall>c'. r = Inr c' \<longrightarrow> length (files st') = c')"
    and "numbered d (files st)" and "length (files st) = c"
    and "process_shapes st ss n c d = (r, st')"
  shows "numbered d (files st') \<and> (\<forall>c'. r = Inr c' \<longrightarrow> length (files st') = c')"
  using assms
proof (induction ss arbitrary: st c r st')
  case Nil
  then show ?case by auto
next
  case (Cons s ss)
  obtain r1 st1 where rt: "process_shape st s n c d = (r1, st1)"
    by (cases "process_shape st s n c d")
  have one: "numbered d (files st1) \<and> (\<forall>c'. r1 = Inr c' \<longrightarrow> length (files st1) = c')"
    by (rule Cons.prems(1) [OF _ Cons.prems(2) Cons.prems(3) rt]) simp
  show ?case
  proof (cases r1)
    case (Inl e)
    with rt Cons.prems(4) one show ?thesis by auto
  next
    case (Inr c1)
    with rt Cons.prems(4) have rest: "process_shapes st1 ss n c1 d = (r, st')" by simp
    from one Inr have n1: "numbered d (files st1)" and l1: "length (files st1) = c1" by simp_all
    show ?thesis
    proof (rule Cons.IH [OF _ n1 l1 rest])
      fix s' and u :: conv_state and c' r' u'
      assume "s' \<in> set ss" and "numbered d (files u)" and "length (files u) = c'"
        and "process_shape u s' n c' d = (r', u')"
      then show "numbered d (files u') \<and> (\<forall>c''. r' = Inr c'' \<longrightarrow> length (files u') = c'')"
        by (intro Cons.prems(1) [of s' u c' r' u']) simp_all
    qed
  qed
qed

lemma process_shape_numbered:
  assumes "numbered d (files st)" and "length (files st) = c"
    and "process_shape st s n c d = (r, st')"
  shows "numbered d (files st') \<and> (\<forall>c'. r = Inr c' \<longrightarrow> length (files st') = c')"
  using assms
proof (induction s arbitrary: st c r st')
  case (Shape a subs)
  show ?case
  proof (cases "visible a = Some False")
    case True
    with Shape.prems show ?thesis by auto
  next
    case vis: False
    show ?thesis
    proof (cases "shape_type a = 6 \<and> subs \<noteq> None")
      case True
      then obtain ss where ss: "subs = Some ss" by auto
      from Shape.prems(3) vis True ss have run: "process_shapes st ss n c d = (r, st')" by simp
      show ?thesis
      proof (rule process_shapes_numbered_aux [OF _ Shape.prems(1) Shape.prems(2) run])
        fix s' and u :: conv_state and c' r' u'
        assume "s' \<in> set ss" and "numbered d (files u)" and "length (files u) = c'"
          and "process_shape u s' n c' d = (r', u')"
        with ss show "numbered d (files u') \<and> (\<forall>c''. r' = Inr c'' \<longrightarrow> length (files u') = c'')"
          by (intro Shape.IH [of ss s' u c' r' u']) simp_all
      qed
    next
      case False
      with vis Shape.prems(3) have "process_leaf st a n c d = (r, st')" by auto
      with Shape.prems(1,2) show ?thesis by (rule process_leaf_numbered)
    qed
  qed
qed

lemma process_shapes_numbered:
  assumes "numbered d (files st)" and "length (files st) = c"
    and "process_shapes st ss n c d = (r, st')"
  shows "numbered d (files st') \<and> (\<forall>c'. r = Inr c' \<longrightarrow> length (files st') = c')"
  by (rule process_shapes_numbered_aux [OF _ assms]) (rule process_shape_numbered)

lemma pptx_slides_numbered:
  assumes "numbered d (files st)" and "length (files st) = c"
  shows "numbered d (files (snd (pptx_slides st i slides c d)))"
  using assms
proof (induction slides arbitrary: st i c)
  case Nil
  then show ?case by simp
next
  case (Cons slide rest)
  let ?st1 = "add_heading st (lit ''Slide '' @ str_nat (i + 1)) 1"
  obtain r2 st2 where rt: "process_shapes ?st1 slide (i + 1) c d = (r2, st2)"
    by (cases "process_shapes ?st1 slide (i + 1) c d")
  from Cons.prems have "numbered d (files ?st1)" and "length (files ?st1) = c" by simp_all
  from process_shapes_numbered [OF this rt]
  have n2: "numbered d (files st2)" and l2: "\<forall>c'. r2 = Inr c' \<longrightarrow> length (files st2) = c'"
    by simp_all
  show ?case
  proof (cases r2)
    case (Inl e)
    with rt n2 show ?thesis by (simp add: Let_def)
  next
    case (Inr c1)
    with l2 have "length (files (add_page_break st2)) = c1" by simp
    moreover from n2 have "numbered d (files (add_page_break st2))" by simp
    ultimately have "numbered d (files (snd (pptx_slides (add_page_break st2) (i + 1) rest c1 d)))"
      by (intro Cons.IH)
    with rt Inr show ?thesis by (simp add: Let_def)
  qed
qed

lemma pptx_files_distinct:
  "distinct (map fst (files (snd (pptx_to_docx prs d))))"
proof -
  have "numbered d (files (snd (pptx_slides Document 0 prs 0 d)))"
    by (rule pptx_slides_numbered) simp_all
  moreover have "snd (pptx_to_docx prs d) = snd (pptx_slides Document 0 prs 0 d)"
    by (simp add: pptx_to_docx_def split: prod.splits sum.splits)
  ultimately show ?thesis by (simp add: numbered_distinct)
qed

text \<open>
  In the PDF pipeline every file written so far names a page and image index pair below
  the pair that comes next.
\<close>

lemma pdf_images_distinct:
  assumes "distinct (map fst (files st))"
    and "\<forall>nm\<in>set (map fst (files st)). \<exists>k l. nm = page_img_path d k l \<and> (k < i \<or> (k = i \<and> l < j))"
  shows "distinct (map fst (files (pdf_images st i j pixs d))) \<and>
         (\<forall>nm\<in>set (map fst (files (pdf_images st i j pixs d))).
            \<exists>k l. nm = page_img_path d k l \<and> (k < i \<or> (k = i \<and> l < j + length pixs)))"
  using assms
proof (induction pixs arbitrary: st j)
  case Nil
  then show ?case by simp
next
  case (Cons pix pixs)
  let ?st2 = "add_picture (save_pixmap st (page_img_path d i j) pix) (page_img_path d i j) 4"
  have files2: "map fst (files ?st2) = map fst (files st) @ [page_img_path d i j]"
    by simp
  have fresh: "page_img_path d i j \<notin> set (map fst (files st))"
  proof
    assume "page_img_path d i j \<in> set (map fst (files st))"
    with Cons.prems(2) obtain k l where "page_img_path d i j = page_img_path d k l"
      and kl: "k < i \<or> (k = i \<and> l < j)" by blast
    then have "i = k \<and> j = l" by (intro page_img_path_inj)
    with kl show False by auto
  qed
  have d2: "distinct (map fst (files ?st2))"
    using Cons.prems(1) fresh by (simp only: files2 distinct_append) simp
  have b2: "\<forall>nm\<in>set (map fst (files ?st2)).
      \<exists>k l. nm = page_img_path d k l \<and> (k < i \<or> (k = i \<and> l < Suc j))"
  proof
    fix nm assume "nm \<in> set (map fst (files ?st2))"
    then have "nm \<in> set (map fst (files st)) \<or> nm = page_img_path d i j"
      by (simp only: files2) auto
    then show "\<exists>k l. nm = page_img_path d k l \<and> (k < i \<or> (k = i \<and> l < Suc j))"
    proof
      assume "nm \<in> set (map fst (files st))"
      with Cons.prems(2) obtain k l where "nm = page_img_path d k l"
        and "k < i \<or> (k = i \<and> l < j)" by blast
      then show ?thesis by (intro exI [of _ k] exI [of _ l]) auto
    next
      assume "nm = page_img_path d i j"
      then show ?thesis by (intro exI [of _ i] exI [of _ j]) simp
    qed
  qed
  from Cons.IH [OF d2 b2] show ?case by (simp add: Let_def)
qed

lemma pdf_pages_distinct:
  assumes "distinct (map fst (files st))"
    and "\<forall>nm\<in>set (map fst (files st)). \<exists>k l. nm = page_img_path d k l \<and> k < i"
  shows "distinct (map fst (files (pdf_pages st i pages d)))"
  using assms
proof (induction pages arbitrary: st i)
  case Nil
  then show ?case by simp
next
  case (Cons page rest)
  let ?st2 = "add_lines (add_heading st (lit ''Page '' @ str_nat (i + 1)) 1) (split_on 10 (page_text page))"
  let ?st3 = "pdf_images ?st2 i 0 (page_images page) d"
  have f2: "files ?st2 = files st" by simp
  have p1: "distinct (map fst (files ?st2))" using Cons.prems(1) by (simp only: f2)
  have p2: "\<forall>nm\<in>set (map fst (files ?st2)).
      \<exists>k l. nm = page_img_path d k l \<and> (k < i \<or> (k = i \<and> l < 0))"
    using Cons.prems(2) by (simp only: f2) blast
  from pdf_images_distinct [OF p1 p2, of "page_images page"]
  have d3: "distinct (map fst (files ?st3))"
    and b3: "\<forall>nm\<in>set (map fst (files ?st3)).
      \<exists>k l. nm = page_img_path d k l \<and> (k < i \<or> (k = i \<and> l < 0 + length (page_images page)))"
    by blast+
  have d4: "distinct (map fst (files (add_page_break ?st3)))"
    using d3 by simp
  have b4: "\<forall>nm\<in>set (map fst (files (add_page_break ?st3))).
      \<exists>k l. nm = page_img_path d k l \<and> k < i + 1"
  proof
    fix nm assume "nm \<in> set (map fst (files (add_page_break ?st3)))"
    then have "nm \<in> set (map fst (files ?st3))" by simp
    with b3 obtain k l where "nm = page_img_path d k l"
      and "k < i \<or> (k = i \<and> l < 0 + length (page_images page))" by blast
    then show "\<exists>k l. nm = page_img_path d k l \<and> k < i + 1"
      by (intro exI [of _ k] exI [of _ l]) auto
  qed
  from Cons.IH [OF d4 b4] show ?case by (simp add: Let_def)
qed

text \<open>
  C9. Within one run, of either pipeline, the paths of the image files written are
  pairwise distinct: no file is written twice, so none is overwritten.
\<close>

theorem image_files_distinct:
  "distinct (map fst (files (snd (pptx_to_docx prs image_dir)))) \<and>
   distinct (map fst (files (pdf_to_docx pdf pdf_dir)))"
proof
  show "distinct (map fst (files (snd (pptx_to_docx prs image_dir))))"
    by (rule pptx_files_distinct)
next
  show "distinct (map fst (files (pdf_to_docx pdf pdf_dir)))"
    unfolding pdf_to_docx_def by (rule pdf_pages_distinct) simp_all
qed


end
